theory Spec2Isabelle
  imports Main "HOL-Library.Sublist" "HOL-Library.AList"
begin

section \<open>Python values used by \<^verbatim>\<open>tools/generate_project.py\<close>\<close>

text \<open>
  The script works on Python \<^verbatim>\<open>str\<close> values, lists and dicts. A \<^verbatim>\<open>str\<close> is modelled
  as a \<^typ>\<open>string\<close> whose characters are the code points below 256; a list as a HOL
  list; a dict as an association list in insertion order (Python dicts iterate in
  insertion order); a set as a HOL set. Every exception the modelled code can raise and
  both \<^verbatim>\<open>sys.exit(1)\<close> diagnostics are values of \<open>error\<close>: \<open>DefineUsedTwice d\<close> is the
  message \<^verbatim>\<open>Define 'd' used twice!\<close> and \<open>UnusedDefines S\<close> the message
  \<^verbatim>\<open>Defines were unused, aborting: S\<close>, each followed by exit status 1. \<open>Unsupported\<close> is
  no Python exception: it marks a value template that uses a part of \<^verbatim>\<open>str.format\<close> left
  out of this model. An \<^verbatim>\<open>assert\<close> is modelled as it runs by default, raising
  \<^verbatim>\<open>AssertionError\<close> when its condition is false.
\<close>

datatype error =
    AssertionError
  | AttributeError
  | IndexError
  | KeyError string
  | ValueError
  | DefineUsedTwice string
  | UnusedDefines "string set"
  | Unsupported

text \<open>\<open>raised e\<close>: \<open>e\<close> is an exception (or the marker \<open>Unsupported\<close>), not one of the two
  diagnostics of the consumption check.\<close>

definition raised :: "error \<Rightarrow> bool" where
  "raised e = (case e of DefineUsedTwice d \<Rightarrow> False | UnusedDefines S \<Rightarrow> False | _ \<Rightarrow> True)"

subsection \<open>Substring search: \<^verbatim>\<open>in\<close>, \<^verbatim>\<open>str.index\<close>, \<^verbatim>\<open>str.split(sep, 1)\<close>\<close>

text \<open>\<^verbatim>\<open>s.find(sub)\<close>: the least index at which \<open>sub\<close> occurs in \<open>s\<close>.\<close>

fun py_find :: "string \<Rightarrow> string \<Rightarrow> nat option" where
  "py_find sub [] = (if sub = [] then Some 0 else None)"
| "py_find sub (c # cs) =
     (if prefix sub (c # cs) then Some 0 else map_option Suc (py_find sub cs))"

text \<open>\<^verbatim>\<open>sub in s\<close>.\<close>

definition py_in :: "string \<Rightarrow> string \<Rightarrow> bool" where
  "py_in sub s = (py_find sub s \<noteq> None)"

text \<open>\<^verbatim>\<open>s.split(sep, 1)[1]\<close>: what follows the first occurrence of \<open>sep\<close>; the list
  has no element 1 when \<open>sep\<close> does not occur.\<close>

definition split1_snd :: "string \<Rightarrow> string \<Rightarrow> error + string" where
  "split1_snd sep s =
     (case py_find sep s of
        None \<Rightarrow> Inl IndexError
      | Some i \<Rightarrow> Inr (drop (i + length sep) s))"

subsection \<open>Whitespace: \<^verbatim>\<open>str.strip()\<close> and the regular expression class \<^verbatim>\<open>\s\<close>\<close>

text \<open>
  \<^verbatim>\<open>str.isspace\<close> on a code point below 256: TAB, LF, VT, FF, CR, the four separators
  0x1C..0x1F, the space, NEL (0x85) and the no-break space (0xA0). The class \<^verbatim>\<open>\s\<close> of
  a \<^verbatim>\<open>str\<close> pattern is the same set.
\<close>

definition py_isspace :: "char \<Rightarrow> bool" where
  "py_isspace c =
     (let n = (of_char c :: nat)
      in (9 \<le> n \<and> n \<le> 13) \<or> (28 \<le> n \<and> n \<le> 32) \<or> n = 133 \<or> n = 160)"

definition lstrip :: "string \<Rightarrow> string" where
  "lstrip s = dropWhile py_isspace s"

definition rstrip :: "string \<Rightarrow> string" where
  "rstrip s = rev (dropWhile py_isspace (rev s))"

definition strip :: "string \<Rightarrow> string" where
  "strip s = rstrip (lstrip s)"

subsection \<open>Lines: \<^verbatim>\<open>text.split("\n")\<close> and \<^verbatim>\<open>"\n".join(lines)\<close>\<close>

definition newline :: char where
  "newline = CHR 0x0A"

fun split_nl :: "string \<Rightarrow> string list" where
  "split_nl [] = [[]]"
| "split_nl (c # cs) =
     (if c = newline then [] # split_nl cs
      else (case split_nl cs of [] \<Rightarrow> [[c]] | l # ls \<Rightarrow> (c # l) # ls))"

fun join_nl :: "string list \<Rightarrow> string" where
  "join_nl [] = []"
| "join_nl [l] = l"
| "join_nl (l # ls) = l @ newline # join_nl ls"

subsection \<open>\<^verbatim>\<open>str.replace(old, new)\<close>\<close>

text \<open>Every occurrence of \<open>old\<close>, left to right and without overlap, becomes \<open>new\<close>. The
  script only calls it with a non-empty \<open>old\<close>; on an empty one Python puts \<open>new\<close>
  around every character.\<close>

function py_replace :: "string \<Rightarrow> string \<Rightarrow> string \<Rightarrow> string" where
  "py_replace old new s =
     (if old = [] then new @ concat (map (\<lambda>c. c # new) s)
      else if s = [] then []
      else if prefix old s then new @ py_replace old new (drop (length old) s)
      else hd s # py_replace old new (tl s))"
  by pat_completeness auto
termination
  by (relation "measure (\<lambda>(old, new, s). length s)") auto

subsection \<open>List indexing: \<^verbatim>\<open>xs[i]\<close>, \<^verbatim>\<open>xs[i] = v\<close>, \<^verbatim>\<open>xs.pop(i)\<close>\<close>

text \<open>A negative index counts from the end; an index that is still out of range raises
  \<^verbatim>\<open>IndexError\<close>.\<close>

definition py_index :: "'a list \<Rightarrow> int \<Rightarrow> error + nat" where
  "py_index xs i =
     (let n = int (length xs); j = (if i < 0 then i + n else i)
      in if 0 \<le> j \<and> j < n then Inr (nat j) else Inl IndexError)"

definition py_getitem :: "'a list \<Rightarrow> int \<Rightarrow> error + 'a" where
  "py_getitem xs i = (case py_index xs i of Inl e \<Rightarrow> Inl e | Inr j \<Rightarrow> Inr (xs ! j))"

definition py_setitem :: "'a list \<Rightarrow> int \<Rightarrow> 'a \<Rightarrow> error + 'a list" where
  "py_setitem xs i v = (case py_index xs i of Inl e \<Rightarrow> Inl e | Inr j \<Rightarrow> Inr (xs[j := v]))"

definition py_pop :: "'a list \<Rightarrow> int \<Rightarrow> error + 'a list" where
  "py_pop xs i =
     (case py_index xs i of Inl e \<Rightarrow> Inl e | Inr j \<Rightarrow> Inr (take j xs @ drop (Suc j) xs))"

section \<open>Component Set Resolver\<close>

subsection \<open>Regular expressions\<close>

text \<open>
  \<^verbatim>\<open>CHIP_SPECIFIC_REGEX\<close> is a pattern of Python's \<^verbatim>\<open>re\<close> module. A backtracking
  matcher finds a match of an anchored pattern exactly when the text is in the pattern's
  language, so the pattern is modelled as a regular expression over character classes
  and matched by derivatives: \<open>deriv c r\<close> denotes the words \<open>w\<close> with \<open>c # w\<close> in the
  language of \<open>r\<close>, and \<open>nullable r\<close> says whether the empty word is in it.
\<close>

datatype rexp =
    Zero
  | One
  | Atom "char \<Rightarrow> bool"
  | Alt rexp rexp
  | Seq rexp rexp
  | Star rexp

fun nullable :: "rexp \<Rightarrow> bool" where
  "nullable Zero = False"
| "nullable One = True"
| "nullable (Atom P) = False"
| "nullable (Alt r s) = (nullable r \<or> nullable s)"
| "nullable (Seq r s) = (nullable r \<and> nullable s)"
| "nullable (Star r) = True"

text \<open>The constructors below drop the empty language and the empty word where they
  change nothing, which keeps derivatives small.\<close>

fun alt :: "rexp \<Rightarrow> rexp \<Rightarrow> rexp" where
  "alt Zero s = s"
| "alt r Zero = r"
| "alt r s = Alt r s"

fun seq :: "rexp \<Rightarrow> rexp \<Rightarrow> rexp" where
  "seq Zero s = Zero"
| "seq r Zero = Zero"
| "seq One s = s"
| "seq r s = Seq r s"

fun deriv :: "char \<Rightarrow> rexp \<Rightarrow> rexp" where
  "deriv c Zero = Zero"
| "deriv c One = Zero"
| "deriv c (Atom P) = (if P c then One else Zero)"
| "deriv c (Alt r s) = alt (deriv c r) (deriv c s)"
| "deriv c (Seq r s) =
     (if nullable r then alt (seq (deriv c r) s) (deriv c s) else seq (deriv c r) s)"
| "deriv c (Star r) = seq (deriv c r) (Star r)"

text \<open>\<^verbatim>\<open>re.fullmatch\<close>: the whole text is a word of the pattern.\<close>

definition re_fullmatch :: "rexp \<Rightarrow> string \<Rightarrow> bool" where
  "re_fullmatch r s = nullable (foldl (\<lambda>r c. deriv c r) r s)"

text \<open>
  What the matcher is to compute: \<open>words r\<close> is the set of texts the pattern \<open>r\<close>
  describes, by the usual reading of alternation, sequence and repetition.
\<close>

definition words_then :: "string set \<Rightarrow> string set \<Rightarrow> string set" where
  "words_then A B = {u @ v | u v. u \<in> A \<and> v \<in> B}"

inductive_set repeated :: "string set \<Rightarrow> string set" for A :: "string set" where
  none: "[] \<in> repeated A"
| more: "u \<in> A \<Longrightarrow> v \<in> repeated A \<Longrightarrow> u @ v \<in> repeated A"

fun words :: "rexp \<Rightarrow> string set" where
  "words Zero = {}"
| "words One = {[]}"
| "words (Atom P) = {[c] | c. P c}"
| "words (Alt r s) = words r \<union> words s"
| "words (Seq r s) = words_then (words r) (words s)"
| "words (Star r) = repeated (words r)"

text \<open>The operators of the pattern language: \<^verbatim>\<open>r+\<close>, \<^verbatim>\<open>r?\<close> and \<^verbatim>\<open>r{m,n}\<close>.\<close>

definition some :: "rexp \<Rightarrow> rexp" where
  "some r = Seq r (Star r)"

definition opt :: "rexp \<Rightarrow> rexp" where
  "opt r = Alt One r"

primrec exactly :: "nat \<Rightarrow> rexp \<Rightarrow> rexp" where
  "exactly 0 r = One"
| "exactly (Suc n) r = Seq r (exactly n r)"

primrec at_most :: "nat \<Rightarrow> rexp \<Rightarrow> rexp" where
  "at_most 0 r = One"
| "at_most (Suc n) r = opt (Seq r (at_most n r))"

definition between :: "nat \<Rightarrow> nat \<Rightarrow> rexp \<Rightarrow> rexp" where
  "between m n r = Seq (exactly m r) (at_most (n - m) r)"

text \<open>A literal text, one character after the other.\<close>

fun lit :: "(char \<Rightarrow> char \<Rightarrow> bool) \<Rightarrow> string \<Rightarrow> rexp" where
  "lit eq [] = One"
| "lit eq (x # xs) = Seq (Atom (eq x)) (lit eq xs)"

subsection \<open>\<^verbatim>\<open>CHIP_SPECIFIC_REGEX\<close>\<close>

text \<open>
  The character classes of the pattern under \<^verbatim>\<open>re.IGNORECASE\<close>, on code points below
  256: \<^verbatim>\<open>[a-z]\<close> is a letter of either case, \<^verbatim>\<open>\d\<close> a decimal digit, a literal letter
  of the pattern stands for both of its cases, and \<^verbatim>\<open>.\<close> is any character but the line
  feed.
\<close>

definition is_lower :: "char \<Rightarrow> bool" where
  "is_lower c = (let n = (of_char c :: nat) in 97 \<le> n \<and> n \<le> 122)"

definition is_upper :: "char \<Rightarrow> bool" where
  "is_upper c = (let n = (of_char c :: nat) in 65 \<le> n \<and> n \<le> 90)"

definition is_digit :: "char \<Rightarrow> bool" where
  "is_digit c = (let n = (of_char c :: nat) in 48 \<le> n \<and> n \<le> 57)"

definition letter_ic :: "char \<Rightarrow> bool" where
  "letter_ic c = (is_lower c \<or> is_upper c)"

definition to_lower :: "char \<Rightarrow> char" where
  "to_lower c = (if is_upper c then char_of (of_char c + (32 :: nat)) else c)"

definition eq_ic :: "char \<Rightarrow> char \<Rightarrow> bool" where
  "eq_ic x c = (to_lower c = to_lower x)"

definition dot :: "char \<Rightarrow> bool" where
  "dot c = (c \<noteq> newline)"

text \<open>
  \<^verbatim>\<open>(?:[a-z]+\d+){2,5}[a-z]*\<close> for chips and \<^verbatim>\<open>brd\d+[a-z](?:_.+)?\<close> for boards and
  board-specific configuration (\<^verbatim>\<open>re.VERBOSE\<close> only lets the source lay the pattern out
  over several lines).
\<close>

definition chip_rexp :: rexp where
  "chip_rexp =
     Seq (between 2 5 (Seq (some (Atom letter_ic)) (some (Atom is_digit))))
         (Star (Atom letter_ic))"

definition board_rexp :: rexp where
  "board_rexp =
     Seq (lit eq_ic ''brd'')
       (Seq (some (Atom is_digit))
         (Seq (Atom letter_ic)
           (opt (Seq (Atom ((=) CHR ''_'')) (some (Atom dot))))))"

text \<open>
  \<^verbatim>\<open>CHIP_SPECIFIC_REGEX.match(s)\<close>, as a truth value. The pattern is anchored by \<^verbatim>\<open>^\<close>
  and \<^verbatim>\<open>$\<close>; without \<^verbatim>\<open>re.MULTILINE\<close>, \<^verbatim>\<open>$\<close> matches at the end of the text and
  also just before a line feed that ends it.
\<close>

definition CHIP_SPECIFIC_REGEX :: "string \<Rightarrow> bool" where
  "CHIP_SPECIFIC_REGEX s =
     (let r = Alt chip_rexp board_rexp
      in re_fullmatch r s \<or> (s \<noteq> [] \<and> last s = newline \<and> re_fullmatch r (butlast s)))"

subsection \<open>Resolution\<close>

text \<open>
  A component of the project file is a mapping with the key \<^verbatim>\<open>id\<close> and possibly other
  keys (\<^verbatim>\<open>instance\<close>, \<^verbatim>\<open>from\<close>); \<open>others\<close> holds them, \<open>None\<close> when \<^verbatim>\<open>id\<close> is the only
  key. Python compares such mappings key by key, which is the equality of this type.
\<close>

datatype 'x component = Component (cid: string) (others: "'x option")

text \<open>
  Lines 191 to 208 of the script: strip the chip- and board-specific components, append
  the device, extend by \<^verbatim>\<open>add_components\<close>, then \<^verbatim>\<open>list.remove\<close> each of
  \<^verbatim>\<open>remove_components\<close>. \<^verbatim>\<open>list.remove\<close> deletes the first equal element and raises
  \<^verbatim>\<open>ValueError\<close> when there is none; the script catches it and logs a warning. The
  second component of the result lists the components warned about.
\<close>

definition strip_chip_specific :: "'x component list \<Rightarrow> 'x component list" where
  "strip_chip_specific cs = filter (\<lambda>c. \<not> CHIP_SPECIFIC_REGEX (cid c)) cs"

fun remove_components ::
  "'x component list \<Rightarrow> 'x component list \<Rightarrow> 'x component list \<times> 'x component list" where
  "remove_components cs [] = (cs, [])"
| "remove_components cs (r # rs) =
     (if r \<in> set cs then remove_components (remove1 r cs) rs
      else (let (cs', warned) = remove_components cs rs in (cs', r # warned)))"

definition resolve_components ::
  "'x component list \<Rightarrow> string \<Rightarrow> 'x component list \<Rightarrow> 'x component list
     \<Rightarrow> 'x component list \<times> 'x component list" where
  "resolve_components base device add_components remove =
     remove_components
       (strip_chip_specific base @ [Component device None] @ add_components) remove"

section \<open>Configuration and Define Merger\<close>

text \<open>
  An entry of the project file's \<^verbatim>\<open>configuration\<close> and \<^verbatim>\<open>define\<close> sequences is a mapping
  with the keys \<^verbatim>\<open>name\<close> and \<^verbatim>\<open>value\<close> and possibly others (\<^verbatim>\<open>condition\<close>), kept in
  \<open>other_keys\<close>.
\<close>

record 'x entry =
  name :: string
  val :: string
  other_keys :: "'x option"

text \<open>
  Lines 219 to 226, for one \<open>(n, v)\<close> of the manifest's map: the \<^verbatim>\<open>for\<close> loop stops at
  the first entry named \<open>n\<close> and overwrites its value; its \<^verbatim>\<open>else\<close> branch, taken when
  the loop ran to the end, appends a new entry.
\<close>

fun set_entry :: "string \<Rightarrow> string \<Rightarrow> 'x entry list \<Rightarrow> 'x entry list" where
  "set_entry n v [] = [\<lparr>name = n, val = v, other_keys = None\<rparr>]"
| "set_entry n v (config # output_config) =
     (if name config = n then config\<lparr>val := v\<rparr> # output_config
      else config # set_entry n v output_config)"

text \<open>
  Lines 215 to 226: every item of \<open>input_config\<close>, in the dict's order, with its value
  coerced by \<^verbatim>\<open>str\<close>. The manifest's values are YAML scalars of a type \<open>'v\<close>; \<open>str\<close> is
  Python's coercion on them.
\<close>

definition extend_config ::
  "('v \<Rightarrow> string) \<Rightarrow> (string \<times> 'v) list \<Rightarrow> 'x entry list \<Rightarrow> 'x entry list" where
  "extend_config str input_config output_config =
     foldl (\<lambda>out (n, v). set_entry n (str v) out) output_config input_config"

section \<open>Define Injection Engine\<close>

text \<open>A function that may raise, followed by the rest of the block.\<close>

fun bind :: "error + 'a \<Rightarrow> ('a \<Rightarrow> error + 'b) \<Rightarrow> error + 'b" where
  "bind (Inl e) f = Inl e"
| "bind (Inr x) f = f x"

subsection \<open>\<^verbatim>\<open>str.format(**value_template_env)\<close>\<close>

text \<open>
  \<open>value_template_env\<close> has the single key \<^verbatim>\<open>git_repo_hash\<close>. A replacement field
  \<^verbatim>\<open>{git_repo_hash}\<close> becomes its value, \<^verbatim>\<open>{{\<close> and \<^verbatim>\<open>}}\<close> are the braces themselves, a
  brace without its partner is a \<^verbatim>\<open>ValueError\<close>, a field with another name is a
  \<^verbatim>\<open>KeyError\<close> and a positional one (\<^verbatim>\<open>{}\<close>, \<^verbatim>\<open>{0}\<close>) an \<^verbatim>\<open>IndexError\<close>, there being no
  positional argument. A field with a conversion or a format specification (\<^verbatim>\<open>!\<close>,
  \<^verbatim>\<open>:\<close>), or an attribute or index of the hash (\<^verbatim>\<open>.\<close>, \<^verbatim>\<open>[\<close>), is outside this model.
\<close>

definition format_field :: "string \<Rightarrow> string \<Rightarrow> error + string" where
  "format_field git_repo_hash field =
     (if list_ex (\<lambda>c. c \<in> set ''!:'') field then Inl Unsupported
      else if CHR ''{'' \<in> set field then Inl ValueError
      else
        (let arg_name = takeWhile (\<lambda>c. c \<notin> set ''.['') field
         in if arg_name = ''git_repo_hash''
            then (if field = arg_name then Inr git_repo_hash else Inl Unsupported)
            else if list_all is_digit arg_name then Inl IndexError
            else Inl (KeyError arg_name)))"

function py_format :: "string \<Rightarrow> string \<Rightarrow> error + string" where
  "py_format git_repo_hash [] = Inr []"
| "py_format git_repo_hash (c # cs) =
     (if c = CHR ''{'' then
        (if cs \<noteq> [] \<and> hd cs = CHR ''{''
         then map_sum id ((#) CHR ''{'') (py_format git_repo_hash (tl cs))
         else (case py_find ''}'' cs of
                 None \<Rightarrow> Inl ValueError
               | Some i \<Rightarrow>
                   bind (format_field git_repo_hash (take i cs)) (\<lambda>v.
                   map_sum id ((@) v) (py_format git_repo_hash (drop (Suc i) cs)))))
      else if c = CHR ''}'' then
        (if cs \<noteq> [] \<and> hd cs = CHR ''}''
         then map_sum id ((#) CHR ''}'') (py_format git_repo_hash (tl cs))
         else Inl ValueError)
      else map_sum id ((#) c) (py_format git_repo_hash cs))"
  by pat_completeness auto
termination
  by (relation "measure (\<lambda>(h, s). length s)") auto

subsection \<open>The two patterns matched against the preceding line\<close>

text \<open>
  \<^verbatim>\<open>re.match(r"#ifndef\s+([A-Z0-9_]+)", prev_line)\<close>, as its group 1, \<open>None\<close> when there
  is no match. \<^verbatim>\<open>re.match\<close> matches at the start of the text only. No character is both
  in \<^verbatim>\<open>\s\<close> and in \<^verbatim>\<open>[A-Z0-9_]\<close>, so the greedy \<^verbatim>\<open>\s+\<close> takes the whole run of
  white space and the group the whole run of guard characters after it; both runs must
  be non-empty.
\<close>

definition guard_char :: "char \<Rightarrow> bool" where
  "guard_char c = (is_upper c \<or> is_digit c \<or> c = CHR ''_'')"

definition ifndef_group :: "string \<Rightarrow> string option" where
  "ifndef_group prev_line =
     (if prefix ''#ifndef'' prev_line then
        (let after = drop (length ''#ifndef'') prev_line;
             name_part = dropWhile py_isspace after;
             group1 = takeWhile guard_char name_part
         in if takeWhile py_isspace after = [] \<or> group1 = [] then None else Some group1)
      else None)"

text \<open>
  \<^verbatim>\<open>re.match(r'#warning ".*? not configured"', prev_line)\<close>, as a truth value. \<^verbatim>\<open>.\<close>
  matches no line feed, so the match exists when the first \<^verbatim>\<open> not configured"\<close> after
  the opening quote has no line feed before it.
\<close>

definition warning_match :: "string \<Rightarrow> bool" where
  \<open>warning_match prev_line =
     (prefix ''#warning "'' prev_line \<and>
      (let after = drop (length ''#warning "'') prev_line
       in case py_find '' not configured"'' after of
            None \<Rightarrow> False
          | Some i \<Rightarrow> newline \<notin> set (take i after)))\<close>

subsection \<open>One header\<close>

text \<open>
  \<open>c_defines\<close> is the manifest's map from define names to value templates, in the
  dict's order, each template already coerced by \<^verbatim>\<open>str\<close>. The loop over a header's lines
  carries three variables: the output lines \<open>new_config_h_lines\<close>, the dict
  \<open>written_config\<close> and the run's set \<open>unused_defines\<close>.
\<close>

type_synonym c_defines = "(string \<times> string) list"

record patch_state =
  new_config_h_lines :: "string list"
  written_config :: "(string \<times> string) list"
  unused_defines :: "string set"

text \<open>Lines 324 to 326: the first define of the dict that the \<^verbatim>\<open>continue\<close> does not
  skip, which is the only one the loop body runs for, as the body ends in \<^verbatim>\<open>break\<close>.\<close>

definition matching_define :: "c_defines \<Rightarrow> string \<Rightarrow> (string \<times> string) option" where
  "matching_define c_defines line =
     find (\<lambda>(define, value_template). py_in (''#define '' @ define @ '' '') line) c_defines"

text \<open>Lines 328 to 331: the white space between the name and its value.\<close>

definition alignment_of :: "string \<Rightarrow> string \<Rightarrow> error + string" where
  "alignment_of define line =
     bind (split1_snd (''#define '' @ define) line) (\<lambda>define_with_whitespace.
     case py_find (strip define_with_whitespace) define_with_whitespace of
       None \<Rightarrow> Inl ValueError
     | Some i \<Rightarrow> Inr (take i define_with_whitespace))"

text \<open>
  Lines 334 to 348: the guard or warning on the preceding line. \<open>project_define\<close> is
  \<^verbatim>\<open>output_project.get("define", [])\<close>. \<^verbatim>\<open>re.match\<close> returns \<^verbatim>\<open>None\<close> when the pattern
  does not match, and \<^verbatim>\<open>.group\<close> on it raises \<^verbatim>\<open>AttributeError\<close>.
\<close>

definition patch_prev_line ::
  "'x entry list \<Rightarrow> string \<Rightarrow> nat \<Rightarrow> string \<Rightarrow> string list \<Rightarrow> error + string list" where
  "patch_prev_line project_define define index prev_line new_lines =
     (if py_in ''#ifndef'' prev_line then
        (case ifndef_group prev_line of
           None \<Rightarrow> Inl AttributeError
         | Some group1 \<Rightarrow>
             if group1 \<noteq> define then Inl AssertionError
             else if list_ex (\<lambda>c. name c = define) project_define then Inl AssertionError
             else py_setitem new_lines (int index - 1) ''#if 1'')
      else if py_in ''#warning'' prev_line then
        (if \<not> warning_match prev_line then Inl AssertionError
         else py_pop new_lines (int index - 1))
      else Inr new_lines)"

text \<open>Lines 323 to 362: the body of the loop over the lines, for the line at \<open>index\<close>.\<close>

definition patch_line ::
  "c_defines \<Rightarrow> string \<Rightarrow> 'x entry list \<Rightarrow> string list \<Rightarrow> nat \<Rightarrow> string \<Rightarrow> patch_state
     \<Rightarrow> error + patch_state" where
  "patch_line c_defines git_repo_hash project_define config_h_lines index line st =
     (case matching_define c_defines line of
        None \<Rightarrow> Inr (st\<lparr>new_config_h_lines := new_config_h_lines st @ [line]\<rparr>)
      | Some (define, value_template) \<Rightarrow>
          bind (alignment_of define line) (\<lambda>alignment.
          bind (py_getitem config_h_lines (int index - 1)) (\<lambda>prev_line.
          bind (patch_prev_line project_define define index prev_line (new_config_h_lines st))
            (\<lambda>new_lines.
          bind (py_format git_repo_hash value_template) (\<lambda>v.
          if define \<notin> unused_defines st then Inl (DefineUsedTwice define)
          else Inr \<lparr>new_config_h_lines = new_lines @ [''#define '' @ define @ alignment @ v],
                    written_config = AList.update define v (written_config st),
                    unused_defines = unused_defines st - {define}\<rparr>)))))"

fun patch_lines ::
  "c_defines \<Rightarrow> string \<Rightarrow> 'x entry list \<Rightarrow> string list \<Rightarrow> nat \<Rightarrow> string list \<Rightarrow> patch_state
     \<Rightarrow> error + patch_state" where
  "patch_lines c_defines git_repo_hash project_define config_h_lines index [] st = Inr st"
| "patch_lines c_defines git_repo_hash project_define config_h_lines index (line # lines) st =
     bind (patch_line c_defines git_repo_hash project_define config_h_lines index line st)
       (patch_lines c_defines git_repo_hash project_define config_h_lines (Suc index) lines)"

text \<open>
  Lines 319 to 366 for one header with the text \<open>text\<close>. The result is the text written
  back to the file, \<open>None\<close> when \<^verbatim>\<open>written_config\<close> is empty and the file is not
  written, with \<open>written_config\<close> and the new \<open>unused_defines\<close>. The progress message
  printed before the write is not modelled.
\<close>

definition patch_header ::
  "c_defines \<Rightarrow> string \<Rightarrow> 'x entry list \<Rightarrow> string \<Rightarrow> string set
     \<Rightarrow> error + (string option \<times> (string \<times> string) list \<times> string set)" where
  "patch_header c_defines git_repo_hash project_define text unused =
     (let config_h_lines = split_nl text
      in bind (patch_lines c_defines git_repo_hash project_define config_h_lines 0 config_h_lines
                 \<lparr>new_config_h_lines = [], written_config = [], unused_defines = unused\<rparr>)
           (\<lambda>st. Inr (if written_config st \<noteq> []
                       then Some (join_nl (new_config_h_lines st)) else None,
                       written_config st, unused_defines st)))"

subsection \<open>The scanned header set\<close>

text \<open>
  \<open>headers\<close> are the files \<^verbatim>\<open>autogen/*.h\<close> and then \<^verbatim>\<open>config/*.h\<close> of the build directory,
  each with its path and its text as \<^verbatim>\<open>read_text\<close> returns it, in the order \<^verbatim>\<open>glob\<close>
  yields them. Each is read, patched
  and written before the next is read. The first component of the result is the files
  as the scan leaves them, also when it aborts: the headers before the failing one keep
  their patches, the failing one and those after it are untouched.
\<close>

fun patch_headers ::
  "c_defines \<Rightarrow> string \<Rightarrow> 'x entry list \<Rightarrow> (string \<times> string) list \<Rightarrow> string set
     \<Rightarrow> (string \<times> string) list \<times> (error + string set)" where
  "patch_headers c_defines git_repo_hash project_define [] unused = ([], Inr unused)"
| "patch_headers c_defines git_repo_hash project_define ((config_f, text) # headers) unused =
     (case patch_header c_defines git_repo_hash project_define text unused of
        Inl e \<Rightarrow> ((config_f, text) # headers, Inl e)
      | Inr (new_text, written, unused') \<Rightarrow>
          (let (headers', r) =
                 patch_headers c_defines git_repo_hash project_define headers unused'
           in ((config_f, case new_text of None \<Rightarrow> text | Some t \<Rightarrow> t) # headers', r)))"

text \<open>Lines 314 to 370: the whole engine. \<open>Inr ()\<close> is the run going on to the build.\<close>

definition inject_c_defines ::
  "c_defines \<Rightarrow> string \<Rightarrow> 'x entry list \<Rightarrow> (string \<times> string) list
     \<Rightarrow> (string \<times> string) list \<times> (error + unit)" where
  "inject_c_defines c_defines git_repo_hash project_define headers =
     (let (headers', r) =
            patch_headers c_defines git_repo_hash project_define headers (set (map fst c_defines))
      in (headers', bind r (\<lambda>unused_defines.
            if unused_defines \<noteq> {} then Inl (UnusedDefines unused_defines) else Inr ())))"

subsection \<open>How often a define is consumed\<close>

text \<open>
  A line consumes the define that \<open>matching_define\<close> picks for it. \<open>scanned_lines\<close> are
  the lines of all the headers in the order of the scan, and \<open>times_consumed\<close> counts
  the lines among them that consume a given define.
\<close>

definition consumes :: "c_defines \<Rightarrow> string \<Rightarrow> string \<Rightarrow> bool" where
  "consumes c_defines define line =
     (map_option fst (matching_define c_defines line) = Some define)"



section \<open>Build Artifact Rewriter\<close>

text \<open>
  Lines 380 to 384 build a dict from a literal with three keys. A key that repeats keeps
  the place of its first occurrence and the value of its last.
\<close>

definition dict_of :: "('k \<times> 'v) list \<Rightarrow> ('k \<times> 'v) list" where
  "dict_of items = foldl (\<lambda>d (k, v). AList.update k v d) [] items"

text \<open>
  Lines 380 to 386. A path is modelled by its text; \<open>absolute\<close> is
  \<^verbatim>\<open>str(src.absolute())\<close>, which depends on the working directory.
\<close>

fun prefix_map_options :: "(string \<Rightarrow> string) \<Rightarrow> (string \<times> string) list \<Rightarrow> error + string list" where
  "prefix_map_options absolute [] = Inr []"
| \<open>prefix_map_options absolute ((src, dst) # items) =
     (if CHR 0x22 \<in> set (absolute src) then Inl AssertionError
      else bind (prefix_map_options absolute items) (\<lambda>options.
           Inr ((''    "-ffile-prefix-map='' @ absolute src @ ''='' @ dst @ ''"'') # options)))\<close>

text \<open>Lines 392 and 393: the fix of the quoting of one line.\<close>

definition fix_cmake_line :: "string \<Rightarrow> string" where
  \<open>fix_cmake_line line =
     (if \<not> py_in ''>:SHELL:'' line \<and> (py_in '':-imacros '' line \<or> py_in '':-x '' line)
      then ''    "'' @ strip (py_replace ''>:'' ''>:SHELL:'' line) @ ''"''
      else line)\<close>

text \<open>Lines 375 to 397: the lines of \<open>fixed_cmake\<close>, and the text written back.\<close>

definition fixed_cmake ::
  "(string \<Rightarrow> string) \<Rightarrow> string \<Rightarrow> string \<Rightarrow> string \<Rightarrow> string \<Rightarrow> error + string list" where
  "fixed_cmake absolute sdk build_dir toolchain cmake_config =
     bind (prefix_map_options absolute
             (dict_of [(sdk, ''/gecko_sdk''), (build_dir, ''/src''), (toolchain, ''/toolchain'')]))
       (\<lambda>options.
     Inr ([''add_compile_options(''] @ options @ ['')'']
            @ map fix_cmake_line (split_nl cmake_config)))"

definition rewrite_cmake ::
  "(string \<Rightarrow> string) \<Rightarrow> string \<Rightarrow> string \<Rightarrow> string \<Rightarrow> string \<Rightarrow> error + string" where
  "rewrite_cmake absolute sdk build_dir toolchain cmake_config =
     bind (fixed_cmake absolute sdk build_dir toolchain cmake_config)
       (\<lambda>lines. Inr (join_nl lines))"

section \<open>Evaluation rules\<close>

declare py_replace.simps [simp del]

lemmas char_class_defs =
  py_isspace_def is_lower_def is_upper_def is_digit_def letter_ic_def to_lower_def eq_ic_def
  dot_def guard_char_def newline_def

lemmas regex_defs =
  CHIP_SPECIFIC_REGEX_def re_fullmatch_def chip_rexp_def board_rexp_def between_def some_def
  opt_def

lemmas engine_defs =
  py_in_def split1_snd_def strip_def lstrip_def rstrip_def py_index_def py_getitem_def
  py_setitem_def py_pop_def ifndef_group_def warning_match_def matching_define_def
  alignment_of_def patch_prev_line_def patch_line_def patch_header_def inject_c_defines_def

section \<open>The worked example of define injection\<close>

text \<open>
  C1. The header \<^verbatim>\<open>#ifndef FOO\<close>, \<^verbatim>\<open>#define FOO 1\<close>, \<^verbatim>\<open>#endif\<close> with
  \<^verbatim>\<open>c_defines = {FOO: "2"}\<close>, in a project whose own define list does not name
  \<^verbatim>\<open>FOO\<close>: the header is written back as the three lines \<^verbatim>\<open>#if 1\<close>,
  \<^verbatim>\<open>#define FOO 2\<close>, \<^verbatim>\<open>#endif\<close>, the space between the name and the value kept;
  \<^verbatim>\<open>written_config\<close> is \<^verbatim>\<open>{FOO: "2"}\<close>, \<^verbatim>\<open>FOO\<close> leaves \<^verbatim>\<open>unused_defines\<close>, and the run
  over this one header ends with neither diagnostic, so \<^verbatim>\<open>FOO\<close> was consumed once.
\<close>

theorem C1_guarded_define_is_injected:
  assumes "\<not> list_ex (\<lambda>c. name c = ''FOO'') project_define"
  shows "patch_header [(''FOO'', ''2'')] git_repo_hash project_define
           ''#ifndef FOO\<newline>#define FOO 1\<newline>#endif'' {''FOO''}
         = Inr (Some ''#if 1\<newline>#define FOO 2\<newline>#endif'', [(''FOO'', ''2'')], {})
       \<and> split_nl ''#if 1\<newline>#define FOO 2\<newline>#endif''
         = [''#if 1'', ''#define FOO 2'', ''#endif'']
       \<and> inject_c_defines [(''FOO'', ''2'')] git_repo_hash project_define
           [(config_f, ''#ifndef FOO\<newline>#define FOO 1\<newline>#endif'')]
         = ([(config_f, ''#if 1\<newline>#define FOO 2\<newline>#endif'')], Inr ())"
  using assms by (simp add: engine_defs char_class_defs)

theorem C1_witness:
  "patch_header [(''FOO'', ''2'')] ''0a1b2c3d'' ([] :: unit entry list)
           ''#ifndef FOO\<newline>#define FOO 1\<newline>#endif'' {''FOO''}
         = Inr (Some ''#if 1\<newline>#define FOO 2\<newline>#endif'', [(''FOO'', ''2'')], {})
       \<and> split_nl ''#if 1\<newline>#define FOO 2\<newline>#endif''
         = [''#if 1'', ''#define FOO 2'', ''#endif'']
       \<and> inject_c_defines [(''FOO'', ''2'')] ''0a1b2c3d'' ([] :: unit entry list)
           [(''config/app.h'', ''#ifndef FOO\<newline>#define FOO 1\<newline>#endif'')]
         = ([(''config/app.h'', ''#if 1\<newline>#define FOO 2\<newline>#endif'')], Inr ())"
  using C1_guarded_define_is_injected
          [of "[] :: unit entry list" "''0a1b2c3d''" "''config/app.h''"]
  by simp

section \<open>Facts about the Python primitives\<close>

lemma py_in_iff_sublist: "py_in sub s \<longleftrightarrow> sublist sub s"
  by (induction s) (auto simp: py_in_def sublist_Cons_right)

lemma py_find_Some_decomp:
  "py_find sub s = Some i \<Longrightarrow> s = take i s @ sub @ drop (i + length sub) s"
proof (induction s arbitrary: i)
  case Nil
  then show ?case by (simp split: if_splits)
next
  case (Cons c cs)
  show ?case
  proof (cases "prefix sub (c # cs)")
    case True
    with Cons.prems have "i = 0" by simp
    with True show ?thesis by (auto simp: prefix_def)
  next
    case False
    with Cons.prems obtain j where j: "py_find sub cs = Some j" "i = Suc j" by auto
    from Cons.IH [OF j(1)] show ?thesis by (simp add: j(2))
  qed
qed

lemma py_find_le_length: "py_find sub s = Some i \<Longrightarrow> i + length sub \<le> length s"
proof (induction s arbitrary: i)
  case Nil
  then show ?case by (simp split: if_splits)
next
  case (Cons c cs)
  then show ?case by (auto dest: prefix_length_le split: if_splits)
qed

lemma split_nl_not_Nil: "split_nl s \<noteq> []"
  by (induction s) (auto split: list.splits)

lemma join_split_nl: "join_nl (split_nl s) = s"
proof (induction s)
  case Nil
  then show ?case by simp
next
  case (Cons c cs)
  then show ?case
    by (cases "split_nl cs"; cases "tl (split_nl cs)") (auto simp: split_nl_not_Nil)
qed

lemma split_nl_no_newline: "l \<in> set (split_nl s) \<Longrightarrow> newline \<notin> set l"
  by (induction s arbitrary: l) (auto split: list.splits if_splits)

lemma py_getitem_minus_one: "xs \<noteq> [] \<Longrightarrow> py_getitem xs (int 0 - 1) = Inr (last xs)"
proof -
  assume "xs \<noteq> []"
  then have "nat (int (length xs) - 1) = length xs - 1" "0 < length xs" by auto
  with \<open>xs \<noteq> []\<close> show ?thesis
    by (simp add: py_getitem_def py_index_def last_conv_nth)
qed

lemma py_getitem_pred: "0 < i \<Longrightarrow> i < length xs \<Longrightarrow> py_getitem xs (int i - 1) = Inr (xs ! (i - 1))"
  by (auto simp: py_getitem_def py_index_def Let_def nat_diff_distrib' )

lemma find_SomeD: "find P xs = Some x \<Longrightarrow> x \<in> set xs \<and> P x"
  by (induction xs) (auto split: if_splits)

lemma matching_define_Some:
  "matching_define c_defines line = Some (d, t) \<Longrightarrow>
     (d, t) \<in> set c_defines \<and> sublist (''#define '' @ d @ '' '') line"
  unfolding matching_define_def
  by (auto dest!: find_SomeD simp: py_in_iff_sublist)

lemma matching_define_None:
  "matching_define c_defines line = None \<longleftrightarrow>
     (\<forall>d\<in>fst ` set c_defines. \<not> sublist (''#define '' @ d @ '' '') line)"
  unfolding matching_define_def
  by (auto simp: find_None_iff py_in_iff_sublist)

lemma longer_identifier_no_match:
  assumes "line = ''#define '' @ N @ X @ rest" "X \<noteq> []" "hd X \<noteq> CHR '' ''"
    "CHR ''#'' \<notin> set (N @ X @ rest)"
  shows "\<not> sublist (''#define '' @ N @ '' '') line"
proof
  assume "sublist (''#define '' @ N @ '' '') line"
  then obtain pre post where eq: "line = pre @ (''#define '' @ N @ '' '') @ post"
    by (auto simp: sublist_def)
  show False
  proof (cases pre)
    case Nil
    with eq assms(1) have "X @ rest = '' '' @ post" by simp
    with assms(2,3) show False by (cases X) auto
  next
    case (Cons c pre')
    with eq assms(1) have "''define '' @ N @ X @ rest = pre' @ ''#define '' @ N @ '' '' @ post"
      by simp
    then have "CHR ''#'' \<in> set (''define '' @ N @ X @ rest)"
      by (metis append_Cons in_set_conv_decomp)
    with assms(4) show False by simp
  qed
qed

section \<open>Properties of the merger\<close>

lemma names_set_entry: "name ` set (set_entry n v out) = insert n (name ` set out)"
  by (induction out) auto

lemma set_entry_overwrite: "set_entry n v (set_entry n v' out) = set_entry n v out"
  by (induction out) auto

lemma set_entry_swap:
  "n \<noteq> m \<Longrightarrow> m \<in> name ` set out \<Longrightarrow>
   set_entry m w (set_entry n v out) = set_entry n v (set_entry m w out)"
  by (induction out) auto

lemma names_extend_config:
  "name ` set (extend_config str input out) = fst ` set input \<union> name ` set out"
proof (induction input arbitrary: out)
  case Nil
  then show ?case by (simp add: extend_config_def)
next
  case (Cons p input)
  obtain m w where p: "p = (m, w)" by (cases p)
  have "extend_config str (p # input) out = extend_config str input (set_entry m (str w) out)"
    by (simp add: p extend_config_def)
  then show ?case
    by (simp add: Cons.IH names_set_entry p)
qed

lemma extend_config_Cons:
  "extend_config str ((n, v) # input) out = extend_config str input (set_entry n (str v) out)"
  by (simp add: extend_config_def)

lemma extend_config_snoc:
  "extend_config str (input @ [(n, v)]) out = set_entry n (str v) (extend_config str input out)"
  by (simp add: extend_config_def)

lemma extend_config_absorb:
  "n \<in> fst ` set input \<Longrightarrow> n \<in> name ` set out \<Longrightarrow>
   extend_config str input (set_entry n v out) = extend_config str input out"
proof (induction input arbitrary: out)
  case Nil
  then show ?case by simp
next
  case (Cons p input)
  obtain m w where p: "p = (m, w)" by (cases p)
  show ?case
  proof (cases "m = n")
    case True
    then show ?thesis by (simp add: p extend_config_Cons set_entry_overwrite)
  next
    case False
    with Cons.prems have in_input: "n \<in> fst ` set input" by (simp add: p)
    have "set_entry m (str w) (set_entry n v out) = set_entry n v (set_entry m (str w) out)"
      using False Cons.prems(2) by (metis set_entry_swap)
    moreover have "n \<in> name ` set (set_entry m (str w) out)"
      using Cons.prems(2) by (simp add: names_set_entry)
    ultimately show ?thesis
      using Cons.IH [OF in_input] by (simp add: p extend_config_Cons)
  qed
qed

lemma extend_config_commute:
  "n \<notin> fst ` set input \<Longrightarrow> fst ` set input \<subseteq> name ` set out \<Longrightarrow>
   extend_config str input (set_entry n v out) = set_entry n v (extend_config str input out)"
proof (induction input arbitrary: out)
  case Nil
  then show ?case by (simp add: extend_config_def)
next
  case (Cons p input)
  obtain m w where p: "p = (m, w)" by (cases p)
  from Cons.prems have neq: "m \<noteq> n" and m_in: "m \<in> name ` set out"
    and n_notin: "n \<notin> fst ` set input"
    and sub: "fst ` set input \<subseteq> name ` set out"
    by (auto simp: p)
  have "set_entry m (str w) (set_entry n v out) = set_entry n v (set_entry m (str w) out)"
    using neq m_in by (metis set_entry_swap)
  moreover have "fst ` set input \<subseteq> name ` set (set_entry m (str w) out)"
    using sub by (auto simp: names_set_entry)
  ultimately show ?case
    using Cons.IH [OF n_notin] by (simp add: p extend_config_Cons)
qed

lemma extend_config_twice:
  "extend_config str input (extend_config str input out) = extend_config str input out"
proof (induction input arbitrary: out rule: rev_induct)
  case Nil
  then show ?case by (simp add: extend_config_def)
next
  case (snoc p input)
  obtain n v where p: "p = (n, v)" by (cases p)
  define once where "once = extend_config str input out"
  have names: "fst ` set input \<subseteq> name ` set once"
    by (simp add: once_def names_extend_config)
  have IH: "extend_config str input once = once"
    unfolding once_def by (rule snoc.IH)
  have "extend_config str input (set_entry n (str v) once) = 
        (if n \<in> fst ` set input then once else set_entry n (str v) once)"
  proof (cases "n \<in> fst ` set input")
    case True
    then have "n \<in> name ` set once" using names by auto
    with True show ?thesis by (simp add: extend_config_absorb IH)
  next
    case False
    then show ?thesis using names by (simp add: extend_config_commute IH)
  qed
  then show ?case
    by (simp add: p extend_config_snoc set_entry_overwrite flip: once_def)
qed

text \<open>
  C5. The merge is idempotent: for every destination sequence and every map of the
  manifest, merging the map a second time into the result of the first merge leaves
  that result as it is, entry for entry and in the same order. The map may be any list
  of items; that the keys of a dict are distinct is not needed.
\<close>

theorem C5_merge_idempotent:
  "extend_config str input_config (extend_config str input_config output_config)
     = extend_config str input_config output_config"
  by (rule extend_config_twice)




section \<open>The matcher computes the words of a pattern\<close>

lemma nullable_iff: "nullable r \<longleftrightarrow> [] \<in> words r"
  by (induction r) (auto simp: words_then_def intro: repeated.none)

lemma words_alt: "words (alt r s) = words r \<union> words s"
  by (induction r s rule: alt.induct) auto

lemma words_seq: "words (seq r s) = words_then (words r) (words s)"
  by (induction r s rule: seq.induct) (auto simp: words_then_def)

lemma Cons_in_words_then:
  "c # w \<in> words_then A B \<longleftrightarrow>
     (\<exists>u v. w = u @ v \<and> c # u \<in> A \<and> v \<in> B) \<or> ([] \<in> A \<and> c # w \<in> B)"
  by (auto simp: words_then_def Cons_eq_append_conv)

lemma repeated_Cons_split:
  assumes "w \<in> repeated A" "w = c # x"
  shows "\<exists>u v. x = u @ v \<and> c # u \<in> A \<and> v \<in> repeated A"
  using assms
proof (induction arbitrary: x rule: repeated.induct)
  case none
  then show ?case by simp
next
  case (more u v)
  show ?case
  proof (cases u)
    case Nil
    with more show ?thesis by simp
  next
    case (Cons d u')
    with more.prems have "x = u' @ v" "d = c" by simp_all
    with more.hyps(1,2) Cons show ?thesis by blast
  qed
qed

lemma Cons_in_repeated:
  "c # w \<in> repeated A \<longleftrightarrow> (\<exists>u v. w = u @ v \<and> c # u \<in> A \<and> v \<in> repeated A)"
proof
  assume "c # w \<in> repeated A"
  then show "\<exists>u v. w = u @ v \<and> c # u \<in> A \<and> v \<in> repeated A"
    by (rule repeated_Cons_split) simp
next
  assume "\<exists>u v. w = u @ v \<and> c # u \<in> A \<and> v \<in> repeated A"
  then obtain u v where "w = u @ v" "c # u \<in> A" "v \<in> repeated A" by blast
  then show "c # w \<in> repeated A"
    using repeated.more [of "c # u" A v] by simp
qed

lemma words_then_tails:
  "words_then {w. c # w \<in> A} B = {w. \<exists>u v. w = u @ v \<and> c # u \<in> A \<and> v \<in> B}"
  by (auto simp: words_then_def)

lemma words_deriv: "words (deriv c r) = {w. c # w \<in> words r}"
proof (induction r)
  case (Seq r s)
  then show ?case
    by (auto simp: words_alt words_seq Cons_in_words_then nullable_iff words_then_tails)
next
  case (Star r)
  then show ?case
    by (simp add: words_seq Cons_in_repeated words_then_tails)
qed (auto simp: words_alt)

lemma words_foldl_deriv: "words (foldl (\<lambda>r c. deriv c r) r s) = {w. s @ w \<in> words r}"
  by (induction s arbitrary: r) (simp_all add: words_deriv)

lemma re_fullmatch_iff: "re_fullmatch r s \<longleftrightarrow> s \<in> words r"
  by (simp add: re_fullmatch_def nullable_iff words_foldl_deriv)

text \<open>The chip names in the comment above the pattern in the source match it; a
  component name does not.\<close>

lemma names_of_the_source_comment:
  "CHIP_SPECIFIC_REGEX ''MGM210PB32JIA''" "CHIP_SPECIFIC_REGEX ''EFM32GG890F512''"
  "CHIP_SPECIFIC_REGEX ''MGM12P22F1024GA''" "CHIP_SPECIFIC_REGEX ''EZR32WG330F128R69''"
  "CHIP_SPECIFIC_REGEX ''EFR32FG14P231F256GM32''" "CHIP_SPECIFIC_REGEX ''brd4001a_config''"
  "\<not> CHIP_SPECIFIC_REGEX ''bluetooth_stack''"
  by (simp_all add: regex_defs char_class_defs eval_nat_numeral)

section \<open>Properties of the component resolver\<close>

lemma remove_components_foldl:
  "fst (remove_components cs rs) = foldl (\<lambda>cs r. remove1 r cs) cs rs"
  by (induction rs arbitrary: cs) (auto simp: split_beta remove1_idem)

lemma distinct_map_remove1: "distinct (map f xs) \<Longrightarrow> distinct (map f (remove1 x xs))"
proof (induction xs)
  case Nil
  then show ?case by simp
next
  case (Cons y ys)
  have "set (remove1 x ys) \<subseteq> set ys" by (rule set_remove1_subset)
  with Cons show ?case by auto
qed

lemma distinct_cid_remove_components:
  "distinct (map cid cs) \<Longrightarrow> distinct (map cid (fst (remove_components cs rs)))"
  by (induction rs arbitrary: cs) (auto simp: split_beta distinct_map_remove1)

lemma kept_by_remove_components:
  "c \<in> set cs \<Longrightarrow> c \<notin> set rs \<Longrightarrow> c \<in> set (fst (remove_components cs rs))"
  by (induction rs arbitrary: cs) (auto simp: split_beta)

lemma filter_unique_key:
  "distinct (map f xs) \<Longrightarrow> x \<in> set xs \<Longrightarrow> filter (\<lambda>y. f y = f x) xs = [x]"
proof (induction xs)
  case Nil
  then show ?case by simp
next
  case (Cons y ys)
  show ?case
  proof (cases "y = x")
    case True
    with Cons.prems have "f x \<notin> f ` set ys" by simp
    then have "\<forall>z\<in>set ys. f z \<noteq> f x" by (metis imageI)
    then have "filter (\<lambda>y. f y = f x) ys = []" by (simp add: filter_empty_conv)
    with True show ?thesis by simp
  next
    case False
    with Cons.prems have "x \<in> set ys" "f y \<noteq> f x" by auto
    with Cons show ?thesis by simp
  qed
qed

text \<open>
  C3. Resolution keeps the base components whose identifier does not match
  \<^verbatim>\<open>CHIP_SPECIFIC_REGEX\<close>, in their order, appends one entry for the device, then the
  add-list in its order, and then removes the first occurrence of each entry of the
  remove-list, one after the other. For the base \<^verbatim>\<open>[mgm210pb32jia, bluetooth_stack,
  led_driver]\<close>, the device \<^verbatim>\<open>efr32fg14p231f256gm32\<close>, an empty add-list and the
  remove-list \<^verbatim>\<open>[led_driver]\<close> the result is \<^verbatim>\<open>[bluetooth_stack,
  efr32fg14p231f256gm32]\<close>, and no warning is logged.
\<close>

theorem C3_component_resolution:
  "fst (resolve_components base device add_components remove)
     = foldl (\<lambda>cs r. remove1 r cs)
         (filter (\<lambda>c. \<not> CHIP_SPECIFIC_REGEX (cid c)) base
            @ [Component device None] @ add_components)
         remove
   \<and> resolve_components
        [Component ''mgm210pb32jia'' None, Component ''bluetooth_stack'' None,
         Component ''led_driver'' None]
        ''efr32fg14p231f256gm32'' [] [Component ''led_driver'' None]
     = ([Component ''bluetooth_stack'' None, Component ''efr32fg14p231f256gm32'' None], [])"
  by (simp add: remove_components_foldl resolve_components_def strip_chip_specific_def
        regex_defs char_class_defs eval_nat_numeral)

text \<open>
  C4, as stated, fails: nothing in lines 191 to 208 removes duplicates. A manifest that
  adds a component the base project already has yields the identifier twice.
\<close>

theorem C4_counterexample:
  "fst (resolve_components
        [Component ''led_driver'' (None :: unit option)] ''efr32fg14p231f256gm32''
        [Component ''led_driver'' None] [])
     = [Component ''led_driver'' None, Component ''efr32fg14p231f256gm32'' None,
        Component ''led_driver'' None]
   \<and> \<not> distinct (map cid (fst (resolve_components
        [Component ''led_driver'' (None :: unit option)] ''efr32fg14p231f256gm32''
        [Component ''led_driver'' None] [])))"
  by (simp add: resolve_components_def strip_chip_specific_def
        regex_defs char_class_defs eval_nat_numeral)

text \<open>
  C4, amended. When the identifiers of the surviving base components, of the device and
  of the add-list are pairwise distinct, the resolved list has no duplicate identifier;
  when moreover the remove-list does not hold the device's entry, exactly one entry of
  the resolved list has the device's identifier.
\<close>

theorem C4_unique_when_inputs_distinct:
  assumes "distinct (map cid (strip_chip_specific base @ [Component device None] @ add_components))"
    and "Component device None \<notin> set remove"
  shows "distinct (map cid (fst (resolve_components base device add_components remove)))
       \<and> length (filter (\<lambda>c. cid c = device)
                   (fst (resolve_components base device add_components remove))) = 1"
proof -
  let ?all = "strip_chip_specific base @ [Component device None] @ add_components"
  let ?res = "fst (resolve_components base device add_components remove)"
  have res: "?res = fst (remove_components ?all remove)"
    by (simp add: resolve_components_def)
  have d: "distinct (map cid ?res)"
    unfolding res using assms(1) by (rule distinct_cid_remove_components)
  have "Component device None \<in> set ?all" by simp
  then have "Component device None \<in> set ?res"
    unfolding res using assms(2) by (rule kept_by_remove_components)
  from filter_unique_key [OF d this] have "filter (\<lambda>c. cid c = device) ?res = [Component device None]"
    by simp
  with d show ?thesis by simp
qed

theorem C4_witness:
  "distinct (map cid (strip_chip_specific
        [Component ''mgm210pb32jia'' None, Component ''bluetooth_stack'' None,
         Component ''led_driver'' (None :: unit option)]
      @ [Component ''efr32fg14p231f256gm32'' None] @ [Component ''rail_util_pti'' None]))
   \<and> Component ''efr32fg14p231f256gm32'' None \<notin> set [Component ''led_driver'' (None :: unit option)]
   \<and> distinct (map cid (fst (resolve_components
        [Component ''mgm210pb32jia'' None, Component ''bluetooth_stack'' None,
         Component ''led_driver'' (None :: unit option)]
        ''efr32fg14p231f256gm32'' [Component ''rail_util_pti'' None]
        [Component ''led_driver'' None])))
   \<and> length (filter (\<lambda>c. cid c = ''efr32fg14p231f256gm32'') (fst (resolve_components
        [Component ''mgm210pb32jia'' None, Component ''bluetooth_stack'' None,
         Component ''led_driver'' (None :: unit option)]
        ''efr32fg14p231f256gm32'' [Component ''rail_util_pti'' None]
        [Component ''led_driver'' None]))) = 1"
proof -
  have d: "distinct (map cid (strip_chip_specific
        [Component ''mgm210pb32jia'' None, Component ''bluetooth_stack'' None,
         Component ''led_driver'' (None :: unit option)]
      @ [Component ''efr32fg14p231f256gm32'' None] @ [Component ''rail_util_pti'' None]))"
    by (simp add: strip_chip_specific_def regex_defs char_class_defs eval_nat_numeral)
  have r: "Component ''efr32fg14p231f256gm32'' None
             \<notin> set [Component ''led_driver'' (None :: unit option)]"
    by simp
  from C4_unique_when_inputs_distinct [OF d r] d r show ?thesis by blast
qed

section \<open>Properties of the define injection engine\<close>

subsection \<open>Which errors can arise\<close>

lemma bind_eq_Inr: "bind m f = Inr y \<longleftrightarrow> (\<exists>x. m = Inr x \<and> f x = Inr y)"
  by (cases m) auto


lemma raised_simps [simp]:
  "raised AssertionError" "raised AttributeError" "raised IndexError" "raised (KeyError k)"
  "raised ValueError" "raised Unsupported" "\<not> raised (DefineUsedTwice d)"
  "\<not> raised (UnusedDefines S)"
  by (simp_all add: raised_def)








lemma patch_line_None:
  "matching_define c_defines line = None \<Longrightarrow>
   patch_line c_defines h pd ls index line st
     = Inr (st\<lparr>new_config_h_lines := new_config_h_lines st @ [line]\<rparr>)"
  by (simp add: patch_line_def)

lemma patch_line_Inr:
  assumes "patch_line c_defines h pd ls index line st = Inr st'"
    and "matching_define c_defines line = Some (d, t)"
  shows "d \<in> unused_defines st \<and> unused_defines st' = unused_defines st - {d}"
  using assms by (auto simp: patch_line_def bind_eq_Inr split: if_splits)





lemma patch_line_unused:
  assumes "patch_line c_defines h pd ls index line st = Inr st'"
  shows "unused_defines st' = unused_defines st - {d. consumes c_defines d line}
       \<and> (\<forall>d. consumes c_defines d line \<longrightarrow> d \<in> unused_defines st)"
proof (cases "matching_define c_defines line")
  case None
  with assms show ?thesis by (auto simp: patch_line_None consumes_def)
next
  case (Some p)
  obtain m t where p: "p = (m, t)" by (cases p)
  from patch_line_Inr [OF assms Some [unfolded p]]
  show ?thesis by (auto simp: consumes_def Some p)
qed



subsection \<open>The consumption count over the scanned headers\<close>











subsection \<open>Headers without a requested define\<close>

lemma patch_lines_no_match:
  "\<forall>l\<in>set lines. matching_define c_defines l = None \<Longrightarrow>
   patch_lines c_defines h pd ls index lines st
     = Inr (st\<lparr>new_config_h_lines := new_config_h_lines st @ lines\<rparr>)"
  by (induction lines arbitrary: index st) (simp_all add: patch_line_None)

lemma patch_header_no_match:
  assumes "\<forall>l\<in>set (split_nl content). matching_define c_defines l = None"
  shows "patch_header c_defines h pd content unused = Inr (None, [], unused)"
  by (simp add: patch_header_def Let_def patch_lines_no_match [OF assms])

lemma length_patch_headers:
  "length (fst (patch_headers c_defines h pd headers unused)) = length headers"
proof (induction headers arbitrary: unused)
  case Nil
  then show ?case by simp
next
  case (Cons header headers)
  obtain config_f content where header: "header = (config_f, content)" by (cases header)
  show ?case
    by (cases "patch_header c_defines h pd content unused")
       (auto simp: header split_beta Cons.IH)
qed

lemma patch_headers_untouched:
  assumes "i < length headers"
    and "\<forall>l\<in>set (split_nl (snd (headers ! i))). matching_define c_defines l = None"
  shows "fst (patch_headers c_defines h pd headers unused) ! i = headers ! i"
  using assms
proof (induction headers arbitrary: i unused)
  case Nil
  then show ?case by simp
next
  case (Cons header headers)
  obtain config_f content where header: "header = (config_f, content)" by (cases header)
  show ?case
  proof (cases "patch_header c_defines h pd content unused")
    case (Inl e)
    then show ?thesis by (simp add: header)
  next
    case (Inr res)
    obtain new_text written unused1 where res: "res = (new_text, written, unused1)"
      by (cases res)
    show ?thesis
    proof (cases i)
      case 0
      with Cons.prems(2) have "\<forall>l\<in>set (split_nl content). matching_define c_defines l = None"
        by (simp add: header)
      from patch_header_no_match [OF this, of h pd unused] Inr res have "new_text = None"
        by simp
      with 0 Inr res show ?thesis by (simp add: header split_beta)
    next
      case (Suc j)
      with Cons.prems have "j < length headers"
        "\<forall>l\<in>set (split_nl (snd (headers ! j))). matching_define c_defines l = None"
        by simp_all
      from Cons.IH [OF this] Suc Inr res show ?thesis by (simp add: header split_beta)
    qed
  qed
qed

lemma written_only_if_consumed:
  assumes "patch_header c_defines h pd content unused = Inr (Some new_text, written, unused')"
  shows "\<exists>line\<in>set (split_nl content). \<exists>d\<in>fst ` set c_defines.
           sublist (''#define '' @ d @ '' '') line"
proof (rule ccontr)
  assume "\<not> ?thesis"
  then have "\<forall>l\<in>set (split_nl content). matching_define c_defines l = None"
    by (simp add: matching_define_None)
  from patch_header_no_match [OF this, of h pd unused] assms show False by simp
qed

text \<open>
  C10. A scanned header none of whose lines contains \<^verbatim>\<open>#define d \<close> for a requested
  define \<open>d\<close> is not written: \<open>patch_header\<close> returns no text for it and leaves
  \<open>unused_defines\<close> as it was, and after the run, however it ends, the header's text is
  what it was before. Conversely a header is written only when one of its lines contains
  such a declaration, that is when a define was consumed in it.
\<close>

theorem C10_unmatched_header_not_written:
  assumes "i < length headers"
    and "\<forall>line\<in>set (split_nl (snd (headers ! i))). \<forall>d\<in>fst ` set c_defines.
           \<not> sublist (''#define '' @ d @ '' '') line"
  shows "patch_header c_defines git_repo_hash project_define (snd (headers ! i)) unused
           = Inr (None, [], unused)
       \<and> length (fst (inject_c_defines c_defines git_repo_hash project_define headers))
           = length headers
       \<and> fst (inject_c_defines c_defines git_repo_hash project_define headers) ! i
           = headers ! i
       \<and> (\<forall>new_text written unused'.
            patch_header c_defines git_repo_hash project_define content unused
              = Inr (Some new_text, written, unused') \<longrightarrow>
            (\<exists>line\<in>set (split_nl content). \<exists>d\<in>fst ` set c_defines.
               sublist (''#define '' @ d @ '' '') line))"
proof -
  from assms(2) have none:
    "\<forall>l\<in>set (split_nl (snd (headers ! i))). matching_define c_defines l = None"
    by (simp add: matching_define_None)
  have "fst (inject_c_defines c_defines git_repo_hash project_define headers)
      = fst (patch_headers c_defines git_repo_hash project_define headers (set (map fst c_defines)))"
    by (simp add: inject_c_defines_def split_beta)
  with patch_header_no_match [OF none, of git_repo_hash project_define unused]
    patch_headers_untouched [OF assms(1) none, of git_repo_hash project_define "set (map fst c_defines)"]
  have first: "patch_header c_defines git_repo_hash project_define (snd (headers ! i)) unused
           = Inr (None, [], unused)
       \<and> length (fst (inject_c_defines c_defines git_repo_hash project_define headers))
           = length headers
       \<and> fst (inject_c_defines c_defines git_repo_hash project_define headers) ! i
           = headers ! i"
    by (simp add: length_patch_headers)
  have "\<exists>line\<in>set (split_nl content). \<exists>d\<in>fst ` set c_defines.
               sublist (''#define '' @ d @ '' '') line"
    if "patch_header c_defines git_repo_hash project_define content unused
              = Inr (Some new_text, written, unused')"
    for new_text written unused'
    using that by (rule written_only_if_consumed)
  with first show ?thesis by blast
qed

theorem C10_witness:
  "0 < length [(''autogen/a.h'', ''#define BAR 1''),
               (''config/b.h'', ''#ifndef FOO\<newline>#define FOO 1\<newline>#endif'')]
   \<and> patch_header [(''FOO'', ''2'')] ''0a1b2c3d'' ([] :: unit entry list) ''#define BAR 1'' {''FOO''}
     = Inr (None, [], {''FOO''})
   \<and> fst (inject_c_defines [(''FOO'', ''2'')] ''0a1b2c3d'' ([] :: unit entry list)
        [(''autogen/a.h'', ''#define BAR 1''),
         (''config/b.h'', ''#ifndef FOO\<newline>#define FOO 1\<newline>#endif'')]) ! 0
     = (''autogen/a.h'', ''#define BAR 1'')
   \<and> inject_c_defines [(''FOO'', ''2'')] ''0a1b2c3d'' ([] :: unit entry list)
        [(''autogen/a.h'', ''#define BAR 1''),
         (''config/b.h'', ''#ifndef FOO\<newline>#define FOO 1\<newline>#endif'')]
     = ([(''autogen/a.h'', ''#define BAR 1''),
         (''config/b.h'', ''#if 1\<newline>#define FOO 2\<newline>#endif'')], Inr ())"
proof -
  let ?hs = "[(''autogen/a.h'', ''#define BAR 1''),
               (''config/b.h'', ''#ifndef FOO\<newline>#define FOO 1\<newline>#endif'')]"
  have i: "0 < length ?hs" by simp
  have n: "\<forall>line\<in>set (split_nl (snd (?hs ! 0))). \<forall>d\<in>fst ` set [(''FOO'', ''2'')].
           \<not> sublist (''#define '' @ d @ '' '') line"
    by (simp add: py_in_def flip: py_in_iff_sublist)
  have run: "inject_c_defines [(''FOO'', ''2'')] ''0a1b2c3d'' ([] :: unit entry list) ?hs
     = ([(''autogen/a.h'', ''#define BAR 1''),
         (''config/b.h'', ''#if 1\<newline>#define FOO 2\<newline>#endif'')], Inr ())"
    by (simp add: engine_defs char_class_defs)
  from C10_unmatched_header_not_written [OF i n, of "''0a1b2c3d''" "[] :: unit entry list" "{''FOO''}"] i run
  show ?thesis by simp
qed

subsection \<open>A define on the first line of a header\<close>

lemma sublist_strip: "sublist (strip s) s"
proof -
  have "suffix (dropWhile py_isspace (rev (lstrip s))) (rev (lstrip s))"
    by (rule suffix_dropWhile)
  then have "prefix (strip s) (lstrip s)"
    by (simp add: strip_def rstrip_def suffix_to_prefix)
  moreover have "suffix (lstrip s) s"
    by (simp add: lstrip_def suffix_dropWhile)
  ultimately obtain zs ps where "lstrip s = strip s @ zs" "s = ps @ lstrip s"
    by (auto simp: prefix_def suffix_def)
  then have "s = ps @ strip s @ zs" by simp
  then show ?thesis unfolding sublist_def by blast
qed

lemma alignment_of_matched:
  assumes "matching_define c_defines line = Some (define, value_template)"
  shows "\<exists>alignment. alignment_of define line = Inr alignment"
proof -
  from matching_define_Some [OF assms] have "sublist (''#define '' @ define @ '' '') line"
    by simp
  then have "sublist (''#define '' @ define) line"
    by (auto simp: sublist_def)
  then obtain i where "py_find (''#define '' @ define) line = Some i"
    by (auto simp: py_in_def simp flip: py_in_iff_sublist)
  then obtain dww where dww: "split1_snd (''#define '' @ define) line = Inr dww"
    by (simp add: split1_snd_def)
  from sublist_strip [of dww] obtain k where "py_find (strip dww) dww = Some k"
    by (auto simp: py_in_def simp flip: py_in_iff_sublist)
  with dww show ?thesis by (simp add: alignment_of_def)
qed

lemma py_setitem_Nil: "py_setitem [] i v = Inl IndexError"
  by (simp add: py_setitem_def py_index_def Let_def)

lemma py_pop_Nil: "py_pop [] i = Inl IndexError"
  by (simp add: py_pop_def py_index_def Let_def)

text \<open>
  C8, as stated, fails: before the accumulator is touched, the assertions of lines 335
  to 344 and 347 are checked on the last line. Here the define on the first line is
  \<^verbatim>\<open>FOO\<close> and the last line guards \<^verbatim>\<open>BAR\<close>: the run stops with an \<^verbatim>\<open>AssertionError\<close>, not
  an \<^verbatim>\<open>IndexError\<close>.
\<close>

theorem C8_counterexample:
  "split_nl ''#define FOO 1\<newline>#ifndef BAR'' = [''#define FOO 1'', ''#ifndef BAR'']
   \<and> matching_define [(''FOO'', ''2'')] ''#define FOO 1'' = Some (''FOO'', ''2'')
   \<and> py_in ''#ifndef'' ''#ifndef BAR''
   \<and> patch_header [(''FOO'', ''2'')] ''0a1b2c3d'' ([] :: unit entry list)
        ''#define FOO 1\<newline>#ifndef BAR'' {''FOO''} = Inl AssertionError
   \<and> AssertionError \<noteq> IndexError"
  by (simp add: engine_defs char_class_defs)

text \<open>
  C8, amended. When the first line of a header declares a requested define, the
  preceding line the engine reads is \<^verbatim>\<open>config_h_lines[-1]\<close>, the last line of the header.
  If that line contains \<^verbatim>\<open>#ifndef\<close> or \<^verbatim>\<open>#warning\<close>, the header is never patched and the
  run stops with an uncaught exception, not with one of the two diagnostics: an
  \<^verbatim>\<open>AttributeError\<close> when the \<^verbatim>\<open>#ifndef\<close> pattern does not match, an \<^verbatim>\<open>AssertionError\<close>
  when the guard names another identifier, the project's define list names the define
  or the \<^verbatim>\<open>#warning\<close> line has another shape, and an \<^verbatim>\<open>IndexError\<close>, from the
  assignment to or the \<^verbatim>\<open>pop\<close> from the still empty output list, when these checks pass.
\<close>

theorem C8_first_line_wraps_to_last:
  assumes "split_nl content = line # rest"
    and "matching_define c_defines line = Some (define, value_template)"
    and "prev_line = last (line # rest)"
    and "py_in ''#ifndef'' prev_line \<or> py_in ''#warning'' prev_line"
  shows "py_getitem (split_nl content) (int 0 - 1) = Inr prev_line
       \<and> patch_header c_defines h pd content unused
         = Inl (if py_in ''#ifndef'' prev_line
                then (if ifndef_group prev_line = None then AttributeError
                      else if ifndef_group prev_line \<noteq> Some define then AssertionError
                      else if list_ex (\<lambda>c. name c = define) pd then AssertionError
                      else IndexError)
                else (if warning_match prev_line then IndexError else AssertionError))"
proof -
  have get: "py_getitem (line # rest) (int 0 - 1) = Inr prev_line"
    using py_getitem_minus_one [of "line # rest"] assms(3) by simp
  from alignment_of_matched [OF assms(2)] obtain alignment where
    al: "alignment_of define line = Inr alignment" by blast
  let ?e = "if py_in ''#ifndef'' prev_line
                then (if ifndef_group prev_line = None then AttributeError
                      else if ifndef_group prev_line \<noteq> Some define then AssertionError
                      else if list_ex (\<lambda>c. name c = define) pd then AssertionError
                      else IndexError)
                else (if warning_match prev_line then IndexError else AssertionError)"
  have prev: "patch_prev_line pd define 0 prev_line [] = Inl ?e"
    using assms(4)
    by (auto simp: patch_prev_line_def py_setitem_Nil py_pop_Nil split: option.splits)
  have "patch_line c_defines h pd (line # rest) 0 line
          \<lparr>new_config_h_lines = [], written_config = [], unused_defines = unused\<rparr> = Inl ?e"
    using get prev by (simp add: patch_line_def assms(2) al)
  then have "patch_header c_defines h pd content unused = Inl ?e"
    by (simp add: patch_header_def assms(1))
  with get show ?thesis by (simp add: assms(1))
qed

theorem C8_witness:
  \<open>split_nl ''#define FOO 1\<newline>#warning "FOO not configured"''
     = ''#define FOO 1'' # [''#warning "FOO not configured"'']
   \<and> matching_define [(''FOO'', ''2'')] ''#define FOO 1'' = Some (''FOO'', ''2'')
   \<and> py_in ''#warning'' ''#warning "FOO not configured"''
   \<and> py_getitem (split_nl ''#define FOO 1\<newline>#warning "FOO not configured"'') (int 0 - 1)
     = Inr ''#warning "FOO not configured"''
   \<and> patch_header [(''FOO'', ''2'')] ''0a1b2c3d'' ([] :: unit entry list)
        ''#define FOO 1\<newline>#warning "FOO not configured"'' {''FOO''} = Inl IndexError\<close>
proof -
  have s: \<open>split_nl ''#define FOO 1\<newline>#warning "FOO not configured"''
     = ''#define FOO 1'' # [''#warning "FOO not configured"'']\<close>
    by (simp add: newline_def)
  have m: "matching_define [(''FOO'', ''2'')] ''#define FOO 1'' = Some (''FOO'', ''2'')"
    by (simp add: engine_defs)
  have p: \<open>''#warning "FOO not configured"'' = last (''#define FOO 1'' # [''#warning "FOO not configured"''])\<close>
    by simp
  have w: \<open>py_in ''#ifndef'' ''#warning "FOO not configured"'' \<or> py_in ''#warning'' ''#warning "FOO not configured"''\<close>
    by (simp add: engine_defs)
  have c: \<open>\<not> py_in ''#ifndef'' ''#warning "FOO not configured"'' \<and> warning_match ''#warning "FOO not configured"''
       \<and> py_in ''#warning'' ''#warning "FOO not configured"''\<close>
    by (simp add: engine_defs char_class_defs)
  from C8_first_line_wraps_to_last [OF s m p w, of "''0a1b2c3d''" "[] :: unit entry list" "{''FOO''}"] c s m
  show ?thesis by simp
qed

subsection \<open>The trailing space of the pattern\<close>

text \<open>
  C6, as stated, fails: a line that declares the longer identifier \<^verbatim>\<open>FOOX\<close> can still
  contain \<^verbatim>\<open>#define FOO \<close> further on, here in a trailing comment. The engine then
  rewrites the line for \<^verbatim>\<open>FOO\<close> and marks \<^verbatim>\<open>FOO\<close> consumed.
\<close>

theorem C6_counterexample:
  "patch_header [(''FOO'', ''2'')] ''0a1b2c3d'' ([] :: unit entry list)
       ''#define FOOX 1 // #define FOO 2'' {''FOO''}
     = Inr (Some ''#define FOO2'', [(''FOO'', ''2'')], {})"
  by (simp add: engine_defs char_class_defs)

text \<open>
  C6, amended. A line is rewritten for the requested define \<open>N\<close> only if it contains
  \<^verbatim>\<open>#define N \<close> with the trailing space. Consequently a line \<^verbatim>\<open>#define NX...\<close> that
  declares a longer identifier (\<open>X\<close> not empty and not starting with a space) and has no
  \<^verbatim>\<open>#\<close> after the one it starts with does not contain that text, does not consume \<open>N\<close>,
  and leaves the membership of \<open>N\<close> in \<open>unused_defines\<close> as it was; it is copied to the
  output unchanged unless it contains \<^verbatim>\<open>#define M \<close> for another requested define \<open>M\<close>.
\<close>

theorem C6_trailing_space_guard:
  "(matching_define c_defines line = Some (N, t) \<longrightarrow> sublist (''#define '' @ N @ '' '') line)
   \<and> (line = ''#define '' @ N @ X @ rest \<and> X \<noteq> [] \<and> hd X \<noteq> CHR '' ''
        \<and> CHR ''#'' \<notin> set (N @ X @ rest) \<longrightarrow>
       \<not> sublist (''#define '' @ N @ '' '') line
       \<and> \<not> consumes c_defines N line
       \<and> (\<forall>st'. patch_line c_defines h pd ls index line st = Inr st' \<longrightarrow>
             (N \<in> unused_defines st' \<longleftrightarrow> N \<in> unused_defines st))
       \<and> ((\<forall>M\<in>fst ` set c_defines. M \<noteq> N \<longrightarrow> \<not> sublist (''#define '' @ M @ '' '') line) \<longrightarrow>
             patch_line c_defines h pd ls index line st
               = Inr (st\<lparr>new_config_h_lines := new_config_h_lines st @ [line]\<rparr>)))"
proof (intro conjI impI)
  assume "matching_define c_defines line = Some (N, t)"
  from matching_define_Some [OF this] show "sublist (''#define '' @ N @ '' '') line" by simp
next
  assume shape: "line = ''#define '' @ N @ X @ rest \<and> X \<noteq> [] \<and> hd X \<noteq> CHR '' ''
        \<and> CHR ''#'' \<notin> set (N @ X @ rest)"
  then show no: "\<not> sublist (''#define '' @ N @ '' '') line"
    using longer_identifier_no_match [of line N X rest] by blast
  show notc: "\<not> consumes c_defines N line"
  proof
    assume "consumes c_defines N line"
    then obtain t where "matching_define c_defines line = Some (N, t)"
      by (auto simp: consumes_def)
    from matching_define_Some [OF this] no show False by simp
  qed
  show "\<forall>st'. patch_line c_defines h pd ls index line st = Inr st' \<longrightarrow>
             (N \<in> unused_defines st' \<longleftrightarrow> N \<in> unused_defines st)"
  proof (intro allI impI)
    fix st'
    assume "patch_line c_defines h pd ls index line st = Inr st'"
    from patch_line_unused [OF this] notc show "N \<in> unused_defines st' \<longleftrightarrow> N \<in> unused_defines st"
      by auto
  qed
  assume "\<forall>M\<in>fst ` set c_defines. M \<noteq> N \<longrightarrow> \<not> sublist (''#define '' @ M @ '' '') line"
  with no have "matching_define c_defines line = None"
    by (auto simp: matching_define_None)
  then show "patch_line c_defines h pd ls index line st
               = Inr (st\<lparr>new_config_h_lines := new_config_h_lines st @ [line]\<rparr>)"
    by (rule patch_line_None)
qed

theorem C6_witness:
  "matching_define [(''FOO'', ''2'')] ''#define FOO 1'' = Some (''FOO'', ''2'')
   \<and> sublist (''#define '' @ ''FOO'' @ '' '') ''#define FOO 1''
   \<and> \<not> sublist (''#define '' @ ''FOO'' @ '' '') ''#define FOOX 1''
   \<and> \<not> consumes [(''FOO'', ''2'')] ''FOO'' ''#define FOOX 1''
   \<and> patch_line [(''FOO'', ''2'')] ''0a1b2c3d'' ([] :: unit entry list) [''#define FOOX 1''] 0
        ''#define FOOX 1''
        \<lparr>new_config_h_lines = [], written_config = [], unused_defines = {''FOO''}\<rparr>
     = Inr \<lparr>new_config_h_lines = [''#define FOOX 1''], written_config = [],
            unused_defines = {''FOO''}\<rparr>"
proof -
  have m: "matching_define [(''FOO'', ''2'')] ''#define FOO 1'' = Some (''FOO'', ''2'')"
    by (simp add: engine_defs)
  have shape: "''#define FOOX 1'' = ''#define '' @ ''FOO'' @ ''X'' @ '' 1'' \<and> ''X'' \<noteq> []
      \<and> hd ''X'' \<noteq> CHR '' '' \<and> CHR ''#'' \<notin> set (''FOO'' @ ''X'' @ '' 1'')"
    by simp
  have others: "\<forall>M\<in>fst ` set [(''FOO'', ''2'')].
      M \<noteq> ''FOO'' \<longrightarrow> \<not> sublist (''#define '' @ M @ '' '') ''#define FOOX 1''"
    by simp
  note thm1 = C6_trailing_space_guard [of "[(''FOO'', ''2'')]" "''#define FOO 1''" "''FOO''" "''2''" "''X''" "'' 1''"
    "''0a1b2c3d''" "[] :: unit entry list" "[''#define FOOX 1'']" 0
    "\<lparr>new_config_h_lines = [], written_config = [], unused_defines = {''FOO''}\<rparr>"]
  note thm2 = C6_trailing_space_guard [of "[(''FOO'', ''2'')]" "''#define FOOX 1''" "''FOO''" "''2''" "''X''" "'' 1''"
    "''0a1b2c3d''" "[] :: unit entry list" "[''#define FOOX 1'']" 0
    "\<lparr>new_config_h_lines = [], written_config = [], unused_defines = {''FOO''}\<rparr>"]
  from thm1 m have a: "sublist (''#define '' @ ''FOO'' @ '' '') ''#define FOO 1''" by blast
  from thm2 shape others have b: "\<not> sublist (''#define '' @ ''FOO'' @ '' '') ''#define FOOX 1''
   \<and> \<not> consumes [(''FOO'', ''2'')] ''FOO'' ''#define FOOX 1''
   \<and> patch_line [(''FOO'', ''2'')] ''0a1b2c3d'' ([] :: unit entry list) [''#define FOOX 1''] 0
        ''#define FOOX 1''
        \<lparr>new_config_h_lines = [], written_config = [], unused_defines = {''FOO''}\<rparr>
     = Inr (\<lparr>new_config_h_lines = [], written_config = [], unused_defines = {''FOO''}\<rparr>
              \<lparr>new_config_h_lines := new_config_h_lines
                 \<lparr>new_config_h_lines = [], written_config = [], unused_defines = {''FOO''}\<rparr>
                 @ [''#define FOOX 1'']\<rparr>)"
    by blast
  from m a b show ?thesis by simp
qed

section \<open>Properties of the build artifact rewriter\<close>

lemma py_replace_Nil [simp]: "old \<noteq> [] \<Longrightarrow> py_replace old new [] = []"
  by (simp add: py_replace.simps)

lemma py_replace_prefix:
  "old \<noteq> [] \<Longrightarrow> prefix old s \<Longrightarrow>
   py_replace old new s = new @ py_replace old new (drop (length old) s)"
  by (subst py_replace.simps) auto

lemma py_replace_no_prefix:
  "old \<noteq> [] \<Longrightarrow> \<not> prefix old (c # cs) \<Longrightarrow>
   py_replace old new (c # cs) = c # py_replace old new cs"
  by (subst py_replace.simps) auto

text \<open>White space before and after the text takes no part in a replacement, when
  neither \<open>old\<close> nor \<open>new\<close> starts or ends with white space.\<close>

lemma not_prefix_of_space:
  assumes "old \<noteq> []" "\<not> P (hd old)" "P c"
  shows "\<not> prefix old (c # cs)"
  using assms by (cases old) auto

lemma py_replace_spaces:
  assumes "old \<noteq> []" "\<not> P (hd old)" "\<forall>c\<in>set t. P c"
  shows "py_replace old new t = t"
  using assms(3)
proof (induction t)
  case Nil
  then show ?case using assms(1) by simp
next
  case (Cons c t)
  then have "\<not> prefix old (c # t)" using assms(1,2) by (simp add: not_prefix_of_space)
  with Cons assms(1) show ?case by (simp add: py_replace_no_prefix)
qed

lemma py_replace_append_spaces:
  assumes old: "old \<noteq> []" "\<forall>c\<in>set old. \<not> P c" and t: "\<forall>c\<in>set t. P c"
  shows "py_replace old new (s @ t) = py_replace old new s @ t"
proof (induction "length s" arbitrary: s rule: less_induct)
  case less
  have hd_old: "\<not> P (hd old)" using old by (cases old) auto
  show ?case
  proof (cases s)
    case Nil
    then show ?thesis using py_replace_spaces [OF old(1) hd_old t] old(1) by simp
  next
    case (Cons c cs)
    show ?thesis
    proof (cases "prefix old s")
      case True
      then have len: "length old \<le> length s" by (rule prefix_length_le)
      from True have pre: "prefix old (s @ t)" by (simp add: prefix_prefix)
      have shorter: "length (drop (length old) s) < length s"
        using old(1) Cons by simp
      have "py_replace old new (s @ t) = new @ py_replace old new (drop (length old) s @ t)"
        using py_replace_prefix [OF old(1) pre] len by simp
      also have "\<dots> = new @ py_replace old new (drop (length old) s) @ t"
        using less [OF shorter] by simp
      also have "\<dots> = py_replace old new s @ t"
        using py_replace_prefix [OF old(1) True] by simp
      finally show ?thesis .
    next
      case False
      have "\<not> prefix old (s @ t)"
      proof
        assume "prefix old (s @ t)"
        with False obtain us where us: "old = s @ us" "prefix us t"
          by (auto simp: prefix_append)
        with False have "us \<noteq> []" by auto
        then obtain u where "u \<in> set us" by (cases us) auto
        with us have "u \<in> set old" "u \<in> set t" by (auto dest: set_mono_prefix)
        with old(2) t show False by blast
      qed
      then have "py_replace old new (s @ t) = c # py_replace old new (cs @ t)"
        using py_replace_no_prefix [OF old(1), of c "cs @ t" new] Cons by simp
      also have "\<dots> = c # py_replace old new cs @ t"
        using less [of cs] Cons by simp
      also have "\<dots> = py_replace old new s @ t"
        using py_replace_no_prefix [OF old(1), of c cs new] False Cons by simp
      finally show ?thesis .
    qed
  qed
qed

lemma dropWhile_py_replace:
  assumes "old \<noteq> []" "\<not> P (hd old)" "new \<noteq> []" "\<not> P (hd new)"
  shows "dropWhile P (py_replace old new s) = py_replace old new (dropWhile P s)"
proof (induction s)
  case Nil
  then show ?case using assms(1) by simp
next
  case (Cons c cs)
  show ?case
  proof (cases "P c")
    case True
    then have "\<not> prefix old (c # cs)" using assms(1,2) by (simp add: not_prefix_of_space)
    with True Cons assms(1) show ?thesis by (simp add: py_replace_no_prefix)
  next
    case False
    have "dropWhile P (py_replace old new (c # cs)) = py_replace old new (c # cs)"
    proof (cases "prefix old (c # cs)")
      case True
      from py_replace_prefix [OF assms(1) True, of new] assms(3,4) show ?thesis
        by (cases new) auto
    next
      case nopre: False
      from py_replace_no_prefix [OF assms(1) nopre, of new] False show ?thesis by simp
    qed
    with False show ?thesis by simp
  qed
qed

lemma last_py_replace:
  assumes "old \<noteq> []" "new \<noteq> []" "\<not> P (last new)"
  shows "s \<noteq> [] \<Longrightarrow> \<not> P (last s) \<Longrightarrow>
         py_replace old new s \<noteq> [] \<and> \<not> P (last (py_replace old new s))"
proof (induction "length s" arbitrary: s rule: less_induct)
  case less
  then obtain c cs where s: "s = c # cs" by (cases s) auto
  show ?case
  proof (cases "prefix old s")
    case True
    note eq = py_replace_prefix [OF assms(1) True, of new]
    show ?thesis
    proof (cases "drop (length old) s = []")
      case True
      with eq assms show ?thesis by simp
    next
      case False
      have "length (drop (length old) s) < length s" using assms(1) s by simp
      moreover have "last (drop (length old) s) = last s" using False by simp
      ultimately have "py_replace old new (drop (length old) s) \<noteq> [] \<and>
          \<not> P (last (py_replace old new (drop (length old) s)))"
        using less False by metis
      with eq show ?thesis by simp
    qed
  next
    case False
    then have eq: "py_replace old new s = c # py_replace old new cs"
      using py_replace_no_prefix [OF assms(1), of c cs new] s by simp
    show ?thesis
    proof (cases cs)
      case Nil
      with eq less.prems s assms(1) show ?thesis by simp
    next
      case (Cons d ds)
      with less.prems s have "cs \<noteq> []" "\<not> P (last cs)" by auto
      moreover have "length cs < length s" using s by simp
      ultimately have "py_replace old new cs \<noteq> [] \<and> \<not> P (last (py_replace old new cs))"
        using less.hyps by blast
      with eq show ?thesis by simp
    qed
  qed
qed

lemma rstrip_decomp: "\<exists>t. s = rstrip s @ t \<and> (\<forall>c\<in>set t. py_isspace c)"
proof -
  have "rev s = takeWhile py_isspace (rev s) @ dropWhile py_isspace (rev s)" by simp
  then have "s = rev (dropWhile py_isspace (rev s)) @ rev (takeWhile py_isspace (rev s))"
    by (metis rev_append rev_rev_ident)
  moreover have "\<forall>c\<in>set (rev (takeWhile py_isspace (rev s))). py_isspace c"
    by (auto dest: set_takeWhileD)
  ultimately show ?thesis unfolding rstrip_def by blast
qed

lemma rstrip_end: "rstrip s = [] \<or> \<not> py_isspace (last (rstrip s))"
proof (cases "dropWhile py_isspace (rev s)")
  case Nil
  then show ?thesis by (simp add: rstrip_def)
next
  case (Cons c cs)
  then have "\<not> py_isspace c" by (metis hd_dropWhile list.sel(1) list.distinct(1))
  with Cons show ?thesis by (simp add: rstrip_def)
qed

lemma rstrip_append_spaces:
  assumes "\<forall>c\<in>set t. py_isspace c" "u = [] \<or> \<not> py_isspace (last u)"
  shows "rstrip (u @ t) = u"
proof -
  have "dropWhile py_isspace (rev t @ rev u) = dropWhile py_isspace (rev u)"
    using assms(1) by (intro dropWhile_append2) auto
  moreover have "dropWhile py_isspace (rev u) = rev u"
    using assms(2) by (cases u rule: rev_cases) auto
  ultimately show ?thesis by (simp add: rstrip_def)
qed

lemma strip_py_replace:
  assumes "old \<noteq> []" "\<forall>c\<in>set old. \<not> py_isspace c"
    "new \<noteq> []" "\<not> py_isspace (hd new)" "\<not> py_isspace (last new)"
  shows "strip (py_replace old new s) = py_replace old new (strip s)"
proof -
  have hd_old: "\<not> py_isspace (hd old)" using assms(1,2) by (cases old) auto
  obtain t where t: "lstrip s = strip s @ t" "\<forall>c\<in>set t. py_isspace c"
    using rstrip_decomp [of "lstrip s"] by (auto simp: strip_def)
  have "lstrip (py_replace old new s) = py_replace old new (lstrip s)"
    unfolding lstrip_def by (rule dropWhile_py_replace [OF assms(1) hd_old assms(3,4)])
  also have "\<dots> = py_replace old new (strip s) @ t"
    using py_replace_append_spaces [OF assms(1,2) t(2), of new "strip s"] t(1) by simp
  finally have l: "lstrip (py_replace old new s) = py_replace old new (strip s) @ t" .
  have "py_replace old new (strip s) = [] \<or> \<not> py_isspace (last (py_replace old new (strip s)))"
  proof (cases "strip s = []")
    case True
    then show ?thesis using assms(1) by simp
  next
    case False
    moreover from False have "\<not> py_isspace (last (strip s))"
      using rstrip_end [of "lstrip s"] by (simp add: strip_def)
    ultimately show ?thesis
      using last_py_replace [where P = py_isspace and s = "strip s", OF assms(1,3,5)] by blast
  qed
  from rstrip_append_spaces [OF t(2) this] l show ?thesis by (simp add: strip_def)
qed


lemma strip_replace_shell:
  "strip (py_replace ''>:'' ''>:SHELL:'' line) = py_replace ''>:'' ''>:SHELL:'' (strip line)"
  by (rule strip_py_replace) (simp_all add: py_isspace_def)

lemma fix_cmake_line_quoted:
  assumes "sublist '':-imacros '' line \<or> sublist '':-x '' line" "\<not> sublist ''>:SHELL:'' line"
  shows \<open>fix_cmake_line line = ''    "'' @ strip (py_replace ''>:'' ''>:SHELL:'' line) @ ''"''\<close>
  using assms by (simp add: fix_cmake_line_def py_in_iff_sublist)

lemma fix_cmake_line_copied:
  assumes "\<not> ((sublist '':-imacros '' line \<or> sublist '':-x '' line) \<and> \<not> sublist ''>:SHELL:'' line)"
  shows "fix_cmake_line line = line"
  using assms by (auto simp: fix_cmake_line_def py_in_iff_sublist)

text \<open>
  C7. When the rewrite of the cmake file succeeds, its lines are the path-mapping block
  (\<^verbatim>\<open>add_compile_options(\<close>, the options, \<^verbatim>\<open>)\<close>) followed by the input lines in their
  order, each passed through \<open>fix_cmake_line\<close>, and the file is written as these lines
  joined by line feeds. A line that contains \<^verbatim>\<open>:-imacros \<close> or \<^verbatim>\<open>:-x \<close> and does not contain
  \<^verbatim>\<open>>:SHELL:\<close> becomes four spaces and a double quote, the line with every \<^verbatim>\<open>>:\<close>
  replaced by \<^verbatim>\<open>>:SHELL:\<close> and stripped of the white space around it, and a closing
  double quote; stripping before or after the replacement gives the same text. Every
  other line is copied unchanged.
\<close>

theorem C7_cmake_quoting_fix:
  assumes "fixed_cmake absolute sdk build_dir toolchain cmake_config = Inr fixed"
  shows \<open>(\<exists>options. fixed = [''add_compile_options(''] @ options @ ['')'']
                          @ map fix_cmake_line (split_nl cmake_config))
       \<and> rewrite_cmake absolute sdk build_dir toolchain cmake_config = Inr (join_nl fixed)
       \<and> (\<forall>line. (sublist '':-imacros '' line \<or> sublist '':-x '' line)
                  \<and> \<not> sublist ''>:SHELL:'' line \<longrightarrow>
              fix_cmake_line line = ''    "'' @ strip (py_replace ''>:'' ''>:SHELL:'' line) @ ''"''
              \<and> strip (py_replace ''>:'' ''>:SHELL:'' line)
                  = py_replace ''>:'' ''>:SHELL:'' (strip line))
       \<and> (\<forall>line. \<not> ((sublist '':-imacros '' line \<or> sublist '':-x '' line)
                     \<and> \<not> sublist ''>:SHELL:'' line) \<longrightarrow>
              fix_cmake_line line = line)\<close>
proof -
  from assms obtain options where
    "fixed = [''add_compile_options(''] @ options @ ['')'']
               @ map fix_cmake_line (split_nl cmake_config)"
    by (auto simp: fixed_cmake_def bind_eq_Inr)
  then have block: "\<exists>options. fixed = [''add_compile_options(''] @ options @ ['')'']
                          @ map fix_cmake_line (split_nl cmake_config)" by blast
  have written: "rewrite_cmake absolute sdk build_dir toolchain cmake_config = Inr (join_nl fixed)"
    by (simp add: rewrite_cmake_def assms)
  from block written show ?thesis
    by (simp add: fix_cmake_line_quoted fix_cmake_line_copied strip_replace_shell)
qed

theorem C7_witness:
  \<open>fixed_cmake (\<lambda>p. ''/work/'' @ p) ''sdk'' ''build'' ''gcc''
       ''set(X)\<newline>  $<$<COMPILE_LANGUAGE:C>:-imacros cfg.h>\<newline>$<a>:SHELL:-x c>''
     = Inr [''add_compile_options('',
            ''    "-ffile-prefix-map=/work/sdk=/gecko_sdk"'',
            ''    "-ffile-prefix-map=/work/build=/src"'',
            ''    "-ffile-prefix-map=/work/gcc=/toolchain"'',
            '')'',
            ''set(X)'',
            ''    "$<$<COMPILE_LANGUAGE:C>:SHELL:-imacros cfg.h>"'',
            ''$<a>:SHELL:-x c>'']
   \<and> rewrite_cmake (\<lambda>p. ''/work/'' @ p) ''sdk'' ''build'' ''gcc''
       ''set(X)\<newline>  $<$<COMPILE_LANGUAGE:C>:-imacros cfg.h>\<newline>$<a>:SHELL:-x c>''
     = Inr (join_nl [''add_compile_options('',
            ''    "-ffile-prefix-map=/work/sdk=/gecko_sdk"'',
            ''    "-ffile-prefix-map=/work/build=/src"'',
            ''    "-ffile-prefix-map=/work/gcc=/toolchain"'',
            '')'',
            ''set(X)'',
            ''    "$<$<COMPILE_LANGUAGE:C>:SHELL:-imacros cfg.h>"'',
            ''$<a>:SHELL:-x c>''])\<close>
proof -
  have run: \<open>fixed_cmake (\<lambda>p. ''/work/'' @ p) ''sdk'' ''build'' ''gcc''
       ''set(X)\<newline>  $<$<COMPILE_LANGUAGE:C>:-imacros cfg.h>\<newline>$<a>:SHELL:-x c>''
     = Inr [''add_compile_options('',
            ''    "-ffile-prefix-map=/work/sdk=/gecko_sdk"'',
            ''    "-ffile-prefix-map=/work/build=/src"'',
            ''    "-ffile-prefix-map=/work/gcc=/toolchain"'',
            '')'',
            ''set(X)'',
            ''    "$<$<COMPILE_LANGUAGE:C>:SHELL:-imacros cfg.h>"'',
            ''$<a>:SHELL:-x c>'']\<close>
    by (simp add: fixed_cmake_def dict_of_def fix_cmake_line_def py_in_def strip_def lstrip_def
          rstrip_def char_class_defs py_replace.simps)
  from run C7_cmake_quoting_fix [OF run, THEN conjunct2, THEN conjunct1] show ?thesis by (rule conjI)
qed

end
